theory Spec2Isabelle
  imports Complex_Main "HOL-Library.Word"
begin

section \<open>Errors and audio chunks\<close>

text \<open>
  The exceptions the audio module can raise, as values. \<open>StopAsyncIteration\<close> is the
  stream-exhaustion signal of the asynchronous iterators; \<open>AssertionError\<close> is what a
  failing \<open>assert\<close> raises; \<open>NoMoreChunksError\<close> and \<open>NoDefaultInputDeviceError\<close> are the
  two exception classes the module declares; \<open>AudioopError\<close> stands for the error of the
  audioop library; the others are raised by the Python operations the code uses.
\<close>

datatype error =
    StopAsyncIteration
  | AssertionError
  | ZeroDivisionError
  | IndexError
  | TypeError
  | ValueError
  | AudioopError
  | NoMoreChunksError
  | NoDefaultInputDeviceError

type_synonym byte = "8 word"

text \<open>
  \<open>AudioChunk = namedtuple('AudioChunk', ['start_time', 'audio', 'width', 'freq'])\<close>.
  The start time is only ever copied, so an integer (as the docstring types it) is enough.
\<close>

record AudioChunk =
  start_time :: int
  audio :: "byte list"
  width :: int
  freq :: int

text \<open>
  \<open>int(a / b)\<close> on Python integers: true division, then truncation towards zero; a zero
  divisor raises. (The quotient is a double; it is exact for byte counts below \<open>2^52\<close>.)
\<close>

definition int_truediv :: "int \<Rightarrow> int \<Rightarrow> error + int" where
  "int_truediv a b =
     (if b = 0 then Inl ZeroDivisionError
      else Inr (sgn a * sgn b * (\<bar>a\<bar> div \<bar>b\<bar>)))"

definition chunk_sample_cnt :: "AudioChunk \<Rightarrow> error + int" where
  "chunk_sample_cnt chunk = int_truediv (int (length (audio chunk))) (width chunk)"

text \<open>
  \<open>merge_chunks\<close>: the assertion on a non-empty sequence, the joined audio, and the first
  chunk's start time, width and frequency.
\<close>

definition merge_chunks :: "AudioChunk list \<Rightarrow> error + AudioChunk" where
  "merge_chunks chunks =
     (case chunks of
        [] \<Rightarrow> Inl AssertionError
      | c # _ \<Rightarrow>
          Inr \<lparr>start_time = start_time c,
               audio = concat (map audio chunks),
               width = width c,
               freq = freq c\<rparr>)"

text \<open>
  Python's slice bound: a negative index counts from the end, and every bound is clamped
  to the sequence.
\<close>

definition slice_bound :: "'a list \<Rightarrow> int \<Rightarrow> nat" where
  "slice_bound xs i =
     (let n = int (length xs)
      in nat (if i < 0 then max 0 (n + i) else min i n))"

definition slice_to :: "'a list \<Rightarrow> int \<Rightarrow> 'a list" where
  "slice_to xs i = take (slice_bound xs i) xs"

definition slice_from :: "'a list \<Rightarrow> int \<Rightarrow> 'a list" where
  "slice_from xs i = drop (slice_bound xs i) xs"

definition split_chunk :: "AudioChunk \<Rightarrow> int \<Rightarrow> AudioChunk \<times> AudioChunk" where
  "split_chunk chunk sample_offset =
     (let offset = sample_offset * width chunk;
          first_audio = slice_to (audio chunk) offset;
          second_audio = slice_from (audio chunk) offset;
          first_chunk = \<lparr>start_time = start_time chunk, audio = first_audio,
                          width = width chunk, freq = freq chunk\<rparr>;
          second_chunk = \<lparr>start_time = start_time chunk, audio = second_audio,
                           width = width chunk, freq = freq chunk\<rparr>
      in (first_chunk, second_chunk))"

section \<open>Blocks\<close>

text \<open>
  \<open>AudioBlock\<close>: the stop event of the base class and, in \<open>sub\<close>, the state of the
  subclass that provides \<open>_next_chunk\<close>. No \<open>_next_chunk\<close> of the module reads or
  writes the stop event, so it is a function on the subclass state alone.
\<close>

record 's AudioBlock =
  stopped :: bool
  sub :: 's

definition AudioBlock_init :: "'s \<Rightarrow> 's AudioBlock" where
  "AudioBlock_init s = \<lparr>stopped = False, sub = s\<rparr>"

definition ended :: "'s AudioBlock \<Rightarrow> bool" where
  "ended b = stopped b"

definition block_end :: "'s AudioBlock \<Rightarrow> 's AudioBlock" where
  "block_end b = b\<lparr>stopped := True\<rparr>"

text \<open>
  \<open>AudioBlock.__anext__\<close>, one coroutine at a time: a stopped block raises at once;
  otherwise \<open>_next_chunk\<close> runs to its end, a chunk is returned, \<open>StopAsyncIteration\<close>
  ends the block and is raised again, and any other exception is raised as it is. (The
  wait on the stop event wins the race only when another coroutine ends the block
  meanwhile; here an \<open>end()\<close> is a step of its own, between two calls.)
\<close>

definition AudioBlock_anext ::
  "('s \<Rightarrow> (error + AudioChunk) \<times> 's) \<Rightarrow> 's AudioBlock \<Rightarrow> (error + AudioChunk) \<times> 's AudioBlock"
where
  "AudioBlock_anext next_chunk b =
     (if stopped b then (Inl StopAsyncIteration, b)
      else
        (case next_chunk (sub b) of
           (Inr chunk, s') \<Rightarrow> (Inr chunk, b\<lparr>sub := s'\<rparr>)
         | (Inl e, s') \<Rightarrow>
             (if e = StopAsyncIteration then (Inl e, block_end (b\<lparr>sub := s'\<rparr>))
              else (Inl e, b\<lparr>sub := s'\<rparr>))))"

text \<open>
  The producer of an upstream block whose remaining chunks are known: \<open>_next_chunk\<close>
  returns them in order and then raises \<open>StopAsyncIteration\<close>, as \<open>QueueAudioBlock\<close> does at
  the \<open>None\<close> sentinel and \<open>_WaveAudioBlock\<close> at an empty read.
\<close>

definition list_next_chunk :: "AudioChunk list \<Rightarrow> (error + AudioChunk) \<times> AudioChunk list" where
  "list_next_chunk q =
     (case q of
        [] \<Rightarrow> (Inl StopAsyncIteration, [])
      | chunk # q' \<Rightarrow> (Inr chunk, q'))"

type_synonym src_block = "AudioChunk list AudioBlock"

section \<open>The resegmenting iterator\<close>

record EvenChunkIterator =
  ec_iterator :: src_block
  ec_chunk_size :: int
  ec_cur_chunk :: "AudioChunk option"

definition EvenChunkIterator_init :: "src_block \<Rightarrow> int \<Rightarrow> EvenChunkIterator" where
  "EvenChunkIterator_init iterator chunk_size =
     \<lparr>ec_iterator = iterator, ec_chunk_size = chunk_size, ec_cur_chunk = None\<rparr>"

text \<open>
  \<open>chunk = self._cur_chunk or await self._iterator.__anext__()\<close>: a chunk is a non-empty
  tuple, hence true, so the upstream is asked only when no chunk is held.
\<close>

definition ec_fetch :: "EvenChunkIterator \<Rightarrow> (error + AudioChunk) \<times> EvenChunkIterator" where
  "ec_fetch it =
     (case ec_cur_chunk it of
        Some chunk \<Rightarrow> (Inr chunk, it)
      | None \<Rightarrow>
          (case AudioBlock_anext list_next_chunk (ec_iterator it) of
             (r, b) \<Rightarrow> (r, it\<lparr>ec_iterator := b\<rparr>)))"

definition ec_measure :: "EvenChunkIterator \<Rightarrow> nat" where
  "ec_measure it =
     length (sub (ec_iterator it)) + (case ec_cur_chunk it of None \<Rightarrow> 0 | Some _ \<Rightarrow> 1)"

lemma ec_fetch_measure:
  assumes "ec_fetch it = (Inr chunk, it1)"
  shows "ec_measure (it1\<lparr>ec_cur_chunk := None\<rparr>) < ec_measure it"
  using assms
  by (auto simp: ec_fetch_def ec_measure_def AudioBlock_anext_def list_next_chunk_def
      split: option.splits if_splits list.splits prod.splits sum.splits)

text \<open>
  The loop of \<open>EvenChunkIterator.__anext__\<close>, with its two locals \<open>sample_queue\<close> and
  \<open>ret_chunk_size\<close>. An exception of the upstream (its exhaustion too) leaves the loop
  and the method: nothing catches it.
\<close>

function even_loop ::
  "EvenChunkIterator \<Rightarrow> AudioChunk list \<Rightarrow> int \<Rightarrow> (error + AudioChunk) \<times> EvenChunkIterator"
where
  "even_loop it sample_queue ret_chunk_size =
     (if ret_chunk_size < ec_chunk_size it then
        (case ec_fetch it of
           (Inl e, it1) \<Rightarrow> (Inl e, it1)
         | (Inr chunk, it1) \<Rightarrow>
             (case chunk_sample_cnt chunk of
                Inl e \<Rightarrow> (Inl e, it1\<lparr>ec_cur_chunk := None\<rparr>)
              | Inr cur_chunk_size \<Rightarrow>
                  (if ret_chunk_size + cur_chunk_size > ec_chunk_size it then
                     (case merge_chunks (sample_queue @ [chunk]) of
                        Inl e \<Rightarrow> (Inl e, it1\<lparr>ec_cur_chunk := None\<rparr>)
                      | Inr merged_chunk \<Rightarrow>
                          (case split_chunk merged_chunk (ec_chunk_size it) of
                             (ret_chunk, leftover_chunk) \<Rightarrow>
                               (Inr ret_chunk, it1\<lparr>ec_cur_chunk := Some leftover_chunk\<rparr>)))
                   else even_loop (it1\<lparr>ec_cur_chunk := None\<rparr>) (sample_queue @ [chunk])
                          (ret_chunk_size + cur_chunk_size))))
      else (merge_chunks sample_queue, it))"
  by pat_completeness auto
termination
proof (relation "measure (\<lambda>(it, q, r). ec_measure it)", goal_cases)
  case 1
  show ?case by simp
next
  case (2 it sample_queue ret_chunk_size x1 x2 chunk cur_chunk_size)
  from 2(2) 2(3) have "ec_fetch it = (Inr chunk, x2)" by simp
  from ec_fetch_measure [OF this] show ?case by simp
qed

declare even_loop.simps [simp del]

definition EvenChunkIterator_anext ::
  "EvenChunkIterator \<Rightarrow> (error + AudioChunk) \<times> EvenChunkIterator" where
  "EvenChunkIterator_anext it = even_loop it [] 0"

section \<open>The sliding window\<close>

text \<open>
  \<open>deque(maxlen=n).append(x)\<close>: the item is added on the right and, when the deque is
  then longer than \<open>maxlen\<close>, the leftmost item is dropped.
\<close>

definition deque_append :: "nat \<Rightarrow> 'a list \<Rightarrow> 'a \<Rightarrow> 'a list" where
  "deque_append maxlen d x =
     (let d' = d @ [x] in if maxlen < length d' then tl d' else d')"

text \<open>
  \<open>RememberingIterator\<close> over an upstream with state \<open>'s\<close>; the upstream's \<open>__anext__\<close> is
  the function \<open>nxt\<close>. The memory size is a natural number: \<open>deque(maxlen=...)\<close> refuses
  a negative one when the iterator is built.
\<close>

record ('s, 'a) RememberingIterator =
  ri_iterator :: 's
  memory_size :: nat
  ri_buff :: "'a list"

definition RememberingIterator_init :: "'s \<Rightarrow> nat \<Rightarrow> ('s, 'a) RememberingIterator" where
  "RememberingIterator_init iterator msize =
     \<lparr>ri_iterator = iterator, memory_size = msize, ri_buff = []\<rparr>"

definition RememberingIterator_anext ::
  "('s \<Rightarrow> (error + 'a) \<times> 's) \<Rightarrow> ('s, 'a) RememberingIterator
     \<Rightarrow> (error + 'a) \<times> ('s, 'a) RememberingIterator"
where
  "RememberingIterator_anext nxt ri =
     (case nxt (ri_iterator ri) of
        (Inl e, s') \<Rightarrow> (Inl e, ri\<lparr>ri_iterator := s'\<rparr>)
      | (Inr ret, s') \<Rightarrow>
          (Inr ret, ri\<lparr>ri_iterator := s',
                        ri_buff := deque_append (memory_size ri) (ri_buff ri) ret\<rparr>))"

definition memory :: "('s, 'a) RememberingIterator \<Rightarrow> 'a list" where
  "memory ri = ri_buff ri"

section \<open>Rate conversion\<close>

text \<open>
  \<open>_RateConvertBlock\<close>, the subclass state of an \<open>AudioBlock\<close>. \<open>audioop.ratecv\<close> is a
  library function: it is the parameter \<open>ratecv\<close>, which takes the fragment, the width,
  the number of channels, the input and output rates and the state (\<open>None\<close> at first), and
  returns the new fragment and the new state, or \<open>None\<close> when it raises its error.
\<close>

record 'st RateConvertBlock =
  rc_src_block :: src_block
  rc_n_channels :: int
  rc_out_rate :: int
  rc_state :: "'st option"

type_synonym 'st ratecv =
  "byte list \<Rightarrow> int \<Rightarrow> int \<Rightarrow> int \<Rightarrow> int \<Rightarrow> 'st option \<Rightarrow> (byte list \<times> 'st) option"

definition RateConvertBlock_init ::
  "src_block \<Rightarrow> int \<Rightarrow> int \<Rightarrow> 'st RateConvertBlock AudioBlock" where
  "RateConvertBlock_init src_block n_channels out_rate =
     AudioBlock_init \<lparr>rc_src_block = src_block, rc_n_channels = n_channels,
                       rc_out_rate = out_rate, rc_state = None\<rparr>"

definition RateConvertBlock_next_chunk ::
  "'st ratecv \<Rightarrow> 'st RateConvertBlock \<Rightarrow> (error + AudioChunk) \<times> 'st RateConvertBlock" where
  "RateConvertBlock_next_chunk ratecv s =
     (case AudioBlock_anext list_next_chunk (rc_src_block s) of
        (Inl e, b) \<Rightarrow> (Inl e, s\<lparr>rc_src_block := b\<rparr>)
      | (Inr chunk, b) \<Rightarrow>
          (case ratecv (audio chunk) 2 (rc_n_channels s) (freq chunk) (rc_out_rate s) (rc_state s) of
             None \<Rightarrow> (Inl AudioopError, s\<lparr>rc_src_block := b\<rparr>)
           | Some (new_aud, new_state) \<Rightarrow>
               (Inr \<lparr>start_time = start_time chunk, audio = new_aud, width = 2,
                     freq = rc_out_rate s\<rparr>,
                s\<lparr>rc_src_block := b, rc_state := Some new_state\<rparr>)))"

text \<open>
  What the design asks of a rate-converted block, in its own words: the chunks are
  converted in order, the state that the conversion of one chunk returns is the state
  given to the conversion of the next, and an output chunk has the input chunk's start
  time, width 2 and the output rate. (A conversion that raises yields its error and
  leaves the state as it was.)
\<close>

fun threaded_conversion ::
  "'st ratecv \<Rightarrow> int \<Rightarrow> int \<Rightarrow> 'st option \<Rightarrow> AudioChunk list \<Rightarrow> (error + AudioChunk) list" where
  "threaded_conversion ratecv n_channels out_rate st [] = []"
| "threaded_conversion ratecv n_channels out_rate st (chunk # chunks) =
     (case ratecv (audio chunk) 2 n_channels (freq chunk) out_rate st of
        None \<Rightarrow> Inl AudioopError # threaded_conversion ratecv n_channels out_rate st chunks
      | Some (new_aud, st') \<Rightarrow>
          Inr \<lparr>start_time = start_time chunk, audio = new_aud, width = 2, freq = out_rate\<rparr>
            # threaded_conversion ratecv n_channels out_rate (Some st') chunks)"

section \<open>The squelch\<close>

text \<open>
  A list comprehension whose element expression can raise: the first exception ends it.
\<close>

fun sequence :: "(error + 'a) list \<Rightarrow> error + 'a list" where
  "sequence [] = Inr []"
| "sequence (Inl e # rs) = Inl e"
| "sequence (Inr v # rs) = (case sequence rs of Inl e \<Rightarrow> Inl e | Inr vs \<Rightarrow> Inr (v # vs))"

text \<open>\<open>xs[i]\<close> in Python: a negative index counts from the end, one out of range raises.\<close>

definition list_index :: "'a list \<Rightarrow> int \<Rightarrow> error + 'a" where
  "list_index xs i =
     (if 0 \<le> i \<and> i < int (length xs) then Inr (xs ! nat i)
      else if i < 0 \<and> - int (length xs) \<le> i then Inr (xs ! nat (int (length xs) + i))
      else Inl IndexError)"

text \<open>\<open>int(x)\<close> on a float: truncation towards zero.\<close>

definition trunc :: "real \<Rightarrow> int" where
  "trunc x = (if 0 \<le> x then \<lfloor>x\<rfloor> else \<lceil>x\<rceil>)"

text \<open>
  \<open>audioop.rms\<close> is a library function: it is the parameter \<open>rms\<close>, from a fragment and a
  width to an integer, or an error (audioop refuses a width it does not know and a
  fragment that is not a whole number of samples).
\<close>

type_synonym rms = "byte list \<Rightarrow> int \<Rightarrow> error + int"

text \<open>
  The first two lines of \<open>check_squelch\<close>: the RMS of every chunk of the window, and the
  value at index \<open>int(len(rms_vals) * .5)\<close> of the sorted list.
\<close>

definition median_rms :: "rms \<Rightarrow> AudioChunk list \<Rightarrow> error + int" where
  "median_rms rms chunks =
     (case sequence (map (\<lambda>x. rms (audio x) (width x)) chunks) of
        Inl e \<Rightarrow> Inl e
      | Inr rms_vals \<Rightarrow> list_index (sort rms_vals) (trunc (real (length rms_vals) * 0.5)))"

text \<open>
  \<open>check_squelch(level, is_triggered, chunks)\<close>. The level is an integer, or \<open>None\<close> when it
  was never set, and then the comparison raises. An integer is compared with the product
  \<open>level * .8\<close> by value; the product is taken over the reals here (it is a double in
  Python, which decides the comparison with an integer the same way for every level
  below \<open>2^50\<close>).
\<close>

definition check_squelch :: "rms \<Rightarrow> int option \<Rightarrow> bool \<Rightarrow> AudioChunk list \<Rightarrow> error + bool" where
  "check_squelch rms level is_triggered chunks =
     (case median_rms rms chunks of
        Inl e \<Rightarrow> Inl e
      | Inr median \<Rightarrow>
          (case level of
             None \<Rightarrow> Inl TypeError
           | Some l \<Rightarrow>
               (if is_triggered then
                  (if real_of_int median < real_of_int l * 0.8 then Inr False else Inr True)
                else
                  (if median > l then Inr True else Inr False))))"

text \<open>
  The upstream of a processor: a source whose remaining blocks are known. Its
  \<open>__anext__\<close> returns them in order and then raises \<open>StopAsyncIteration\<close>; its \<open>start\<close> is
  that of the base class.
\<close>

record AudioSource =
  running :: bool
  blocks :: "src_block list"

definition AudioSource_start :: "AudioSource \<Rightarrow> AudioSource" where
  "AudioSource_start src = src\<lparr>running := True\<rparr>"

definition AudioSource_anext :: "AudioSource \<Rightarrow> (error + src_block) \<times> AudioSource" where
  "AudioSource_anext src =
     (case blocks src of
        [] \<Rightarrow> (Inl StopAsyncIteration, src)
      | b # bs \<Rightarrow> (Inr b, src\<lparr>blocks := bs\<rparr>))"

type_synonym mem_iter = "(EvenChunkIterator, AudioChunk) RememberingIterator"

text \<open>
  \<open>SquelchedSource\<close>. \<open>ss_running\<close> is the \<open>running\<close> flag of the base class. The fields
  \<open>_src_block\<close> and \<open>_mem_iter\<close> are set together, and the block \<open>_src_block\<close> is the one
  the resegmenting iterator inside \<open>_mem_iter\<close> reads: \<open>ss_mem_iter\<close> holds both, \<open>None\<close>
  until the first block is taken.
\<close>

record SquelchedSource =
  ss_running :: bool
  ss_source :: AudioSource
  sample_size :: int
  squelch_level :: "int option"
  prefix_samples :: nat
  sample_width :: int
  ss_mem_iter :: "mem_iter option"

definition SquelchedSource_init ::
  "AudioSource \<Rightarrow> int \<Rightarrow> int option \<Rightarrow> nat \<Rightarrow> SquelchedSource" where
  "SquelchedSource_init source ssize level prefix =
     \<lparr>ss_running = False, ss_source = source, sample_size = ssize, squelch_level = level,
      prefix_samples = prefix, sample_width = 2, ss_mem_iter = None\<rparr>"

text \<open>
  \<open>AudioSourceProcessor.start\<close>: the base class sets \<open>running\<close>, then the input source is
  started. \<open>SquelchedSource.start\<close> asserts the level first.
\<close>

definition AudioSourceProcessor_start :: "SquelchedSource \<Rightarrow> (error + unit) \<times> SquelchedSource" where
  "AudioSourceProcessor_start s =
     (Inr (), s\<lparr>ss_running := True, ss_source := AudioSource_start (ss_source s)\<rparr>)"

definition SquelchedSource_start :: "SquelchedSource \<Rightarrow> (error + unit) \<times> SquelchedSource" where
  "SquelchedSource_start s =
     (case squelch_level s of
        None \<Rightarrow> (Inl AssertionError, s)
      | Some _ \<Rightarrow> AudioSourceProcessor_start s)"



text \<open>
  \<open>SquelchedBlock\<close>, the subclass state of an \<open>AudioBlock\<close>. Its source is the remembering
  iterator of the squelched source that made it.
\<close>

record SquelchedBlock =
  sb_source :: mem_iter
  sb_squelch_level :: "int option"
  sent_mem :: bool

definition SquelchedBlock_init :: "mem_iter \<Rightarrow> int option \<Rightarrow> SquelchedBlock AudioBlock" where
  "SquelchedBlock_init source level =
     AudioBlock_init \<lparr>sb_source = source, sb_squelch_level = level, sent_mem = False\<rparr>"

definition SquelchedBlock_next_chunk ::
  "rms \<Rightarrow> SquelchedBlock \<Rightarrow> (error + AudioChunk) \<times> SquelchedBlock" where
  "SquelchedBlock_next_chunk rms sb =
     (if \<not> sent_mem sb then
        (merge_chunks (memory (sb_source sb)), sb\<lparr>sent_mem := True\<rparr>)
      else
        (case RememberingIterator_anext EvenChunkIterator_anext (sb_source sb) of
           (Inl e, mi) \<Rightarrow> (Inl e, sb\<lparr>sb_source := mi\<rparr>)
         | (Inr chunk, mi) \<Rightarrow>
             (case check_squelch rms (sb_squelch_level sb) True (memory mi) of
                Inl e \<Rightarrow> (Inl e, sb\<lparr>sb_source := mi\<rparr>)
              | Inr squelch_triggered \<Rightarrow>
                  (if squelch_triggered then (Inr chunk, sb\<lparr>sb_source := mi\<rparr>)
                   else (Inl StopAsyncIteration, sb\<lparr>sb_source := mi\<rparr>)))))"

text \<open>
  What a resegmenting iterator still holds: the number of chunks left upstream and the
  number of bytes of the chunk it keeps. Every call that returns a chunk makes this pair
  smaller, so the scan of \<open>_next_block\<close> below ends.
\<close>

definition ec_pending :: "EvenChunkIterator \<Rightarrow> nat \<times> nat" where
  "ec_pending it =
     (length (sub (ec_iterator it)),
      (case ec_cur_chunk it of None \<Rightarrow> 0 | Some c \<Rightarrow> length (audio c)))"

lemma ec_fetch_None:
  assumes "ec_cur_chunk it = None" and "ec_fetch it = (Inr chunk, it1)"
  shows "length (sub (ec_iterator it1)) < length (sub (ec_iterator it)) \<and> ec_cur_chunk it1 = None
         \<and> ec_chunk_size it1 = ec_chunk_size it"
  using assms
  by (auto simp: ec_fetch_def AudioBlock_anext_def list_next_chunk_def
      split: if_splits list.splits prod.splits sum.splits)

lemma even_loop_consumes:
  "ec_cur_chunk it = None \<Longrightarrow> even_loop it q ret = (Inr c, it') \<Longrightarrow>
     (if ret < ec_chunk_size it
      then length (sub (ec_iterator it')) < length (sub (ec_iterator it))
      else it' = it)"
proof (induction it q ret rule: even_loop.induct)
  case (1 it q ret)
  show ?case
  proof (cases "ret < ec_chunk_size it")
    case False
    with "1.prems" show ?thesis by (simp add: even_loop.simps)
  next
    case True
    obtain r it1 where f: "ec_fetch it = (r, it1)" by (cases "ec_fetch it")
    show ?thesis
    proof (cases r)
      case (Inl e)
      with "1.prems" True f show ?thesis by (simp add: even_loop.simps)
    next
      case (Inr chunk)
      note fn = ec_fetch_None [OF "1.prems"(1) f [unfolded Inr]]
      show ?thesis
      proof (cases "chunk_sample_cnt chunk")
        case (Inl e)
        with "1.prems" True f Inr show ?thesis by (simp add: even_loop.simps)
      next
        case cnt: (Inr n)
        show ?thesis
        proof (cases "ret + n > ec_chunk_size it")
          case big: True
          with "1.prems" True f Inr cnt fn show ?thesis
            by (auto simp: even_loop.simps split: sum.splits prod.splits)
        next
          case small: False
          have rec: "even_loop (it1\<lparr>ec_cur_chunk := None\<rparr>) (q @ [chunk]) (ret + n) = (Inr c, it')"
            using "1.prems" True f Inr cnt small by (simp add: even_loop.simps)
          have "if ret + n < ec_chunk_size (it1\<lparr>ec_cur_chunk := None\<rparr>)
                then length (sub (ec_iterator it')) < length (sub (ec_iterator (it1\<lparr>ec_cur_chunk := None\<rparr>)))
                else it' = it1\<lparr>ec_cur_chunk := None\<rparr>"
            using "1.IH" [OF True f [symmetric] Inr cnt small _ rec] by simp
          with fn True show ?thesis by (auto split: if_splits)
        qed
      qed
    qed
  qed
qed


lemma cnt_pos_nonempty:
  assumes "chunk_sample_cnt c = Inr n" and "0 < n"
  shows "audio c \<noteq> [] \<and> 0 < width c"
proof -
  have w0: "width c \<noteq> 0" and n: "n = sgn (int (length (audio c))) * sgn (width c) * (\<bar>int (length (audio c))\<bar> div \<bar>width c\<bar>)"
    using assms(1) by (auto simp: chunk_sample_cnt_def int_truediv_def split: if_splits)
  have ne: "audio c \<noteq> []" using n assms(2) by auto
  have "0 \<le> \<bar>int (length (audio c))\<bar> div \<bar>width c\<bar>" using w0 by (simp add: pos_imp_zdiv_nonneg_iff)
  moreover have "sgn (int (length (audio c))) = 1" using ne by simp
  ultimately have "0 < sgn (width c)" using n assms(2)
    by (metis mult.left_neutral mult_le_0_iff not_le)
  then show ?thesis using ne by (simp add: sgn_if split: if_splits)
qed

lemma EvenChunkIterator_anext_decreases:
  assumes "EvenChunkIterator_anext it = (Inr c, it')"
  shows "(ec_pending it', ec_pending it) \<in> less_than <*lex*> less_than"
proof (cases "ec_cur_chunk it")
  case None
  have l: "even_loop it [] 0 = (Inr c, it')" using assms by (simp add: EvenChunkIterator_anext_def)
  have "0 < ec_chunk_size it"
    using l by (cases "0 < ec_chunk_size it") (simp_all add: even_loop.simps merge_chunks_def)
  with even_loop_consumes [OF None l] show ?thesis by (simp add: ec_pending_def)
next
  case (Some c0)
  have l: "even_loop it [] 0 = (Inr c, it')" using assms by (simp add: EvenChunkIterator_anext_def)
  have pos: "0 < ec_chunk_size it"
    using l by (cases "0 < ec_chunk_size it") (simp_all add: even_loop.simps merge_chunks_def)
  have f: "ec_fetch it = (Inr c0, it)" using Some by (simp add: ec_fetch_def)
  obtain n where cnt: "chunk_sample_cnt c0 = Inr n"
    using l pos f by (cases "chunk_sample_cnt c0") (simp_all add: even_loop.simps)
  show ?thesis
  proof (cases "n > ec_chunk_size it")
    case True
    then have "0 < n" using pos by simp
    from cnt_pos_nonempty [OF cnt this] have ne: "audio c0 \<noteq> []" and w: "0 < width c0" by simp_all
    have it': "it' = it\<lparr>ec_cur_chunk := Some (snd (split_chunk \<lparr>start_time = start_time c0, audio = audio c0, width = width c0, freq = freq c0\<rparr> (ec_chunk_size it)))\<rparr>"
      using l pos f cnt True by (simp add: even_loop.simps merge_chunks_def split: prod.splits)
    have "0 < ec_chunk_size it * width c0" using pos w by simp
    then have "0 < slice_bound (audio c0) (ec_chunk_size it * width c0)"
      using ne by (simp add: slice_bound_def min_def Let_def)
    then have "length (slice_from (audio c0) (ec_chunk_size it * width c0)) < length (audio c0)"
      using ne by (simp add: slice_from_def)
    then show ?thesis using it' Some by (simp add: ec_pending_def split_chunk_def Let_def)
  next
    case False
    have rec: "even_loop (it\<lparr>ec_cur_chunk := None\<rparr>) [c0] n = (Inr c, it')"
      using l pos f cnt False by (simp add: even_loop.simps)
    have c: "if n < ec_chunk_size it
          then length (sub (ec_iterator it')) < length (sub (ec_iterator it))
          else it' = it\<lparr>ec_cur_chunk := None\<rparr>"
      using even_loop_consumes [OF _ rec] by (auto split: if_splits)
    show ?thesis
    proof (cases "n < ec_chunk_size it")
      case True
      with c show ?thesis by (simp add: ec_pending_def)
    next
      case nl: False
      then have "0 < n" using pos by simp
      from cnt_pos_nonempty [OF cnt this] have ne: "audio c0 \<noteq> []" by simp
      with c nl Some show ?thesis by (simp add: ec_pending_def)
    qed
  qed
qed

lemma mem_iter_anext_decreases:
  assumes "RememberingIterator_anext EvenChunkIterator_anext mi = (Inr c, mi')"
  shows "(ec_pending (ri_iterator mi'), ec_pending (ri_iterator mi)) \<in> less_than <*lex*> less_than"
proof -
  obtain r e where n: "EvenChunkIterator_anext (ri_iterator mi) = (r, e)"
    by (cases "EvenChunkIterator_anext (ri_iterator mi)")
  with assms have "r = Inr c" and "ri_iterator mi' = e"
    by (auto simp: RememberingIterator_anext_def split: sum.splits)
  with n EvenChunkIterator_anext_decreases show ?thesis by simp
qed

text \<open>
  The loop \<open>async for _ in self._mem_iter\<close> of \<open>SquelchedSource._next_block\<close>: it leaves
  with a new \<open>SquelchedBlock\<close> over the remembering iterator as soon as the squelch
  triggers on its memory, and with \<open>StopAsyncIteration\<close> when the iterator is exhausted.
\<close>

function next_block_scan ::
  "rms \<Rightarrow> int option \<Rightarrow> mem_iter \<Rightarrow> (error + SquelchedBlock AudioBlock) \<times> mem_iter" where
  "next_block_scan rms level mi =
     (case RememberingIterator_anext EvenChunkIterator_anext mi of
        (Inl e, mi') \<Rightarrow> (Inl e, mi')
      | (Inr _, mi') \<Rightarrow>
          (case check_squelch rms level False (memory mi') of
             Inl e \<Rightarrow> (Inl e, mi')
           | Inr triggered \<Rightarrow>
               (if triggered then (Inr (SquelchedBlock_init mi' level), mi')
                else next_block_scan rms level mi')))"
  by pat_completeness auto
termination
proof (relation "inv_image (less_than <*lex*> less_than) (\<lambda>(rms, level, mi). ec_pending (ri_iterator mi))",
    goal_cases)
  case 1
  show ?case by (intro wf_inv_image wf_lex_prod wf_less_than)
next
  case (2 rms level mi x1 mi' chunk triggered)
  from 2(1) 2(2) have "RememberingIterator_anext EvenChunkIterator_anext mi = (Inr chunk, mi')"
    by simp
  from mem_iter_anext_decreases [OF this] show ?case by simp
qed

declare next_block_scan.simps [simp del]

text \<open>
  The head of \<open>_next_block\<close>: when there is no source block yet, or it has ended, the next
  block of the input source is taken and a new remembering iterator over its resegmented
  chunks is made.
\<close>

definition next_block_prepare :: "SquelchedSource \<Rightarrow> (error + mem_iter) \<times> SquelchedSource" where
  "next_block_prepare s =
     (case (case ss_mem_iter s of
              None \<Rightarrow> None
            | Some mi \<Rightarrow> if ended (ec_iterator (ri_iterator mi)) then None else Some mi) of
        Some mi \<Rightarrow> (Inr mi, s)
      | None \<Rightarrow>
          (case AudioSource_anext (ss_source s) of
             (Inl e, src) \<Rightarrow> (Inl e, s\<lparr>ss_source := src\<rparr>)
           | (Inr b, src) \<Rightarrow>
               (let mi = RememberingIterator_init
                           (EvenChunkIterator_init b (sample_size s)) (prefix_samples s)
                in (Inr mi, s\<lparr>ss_source := src, ss_mem_iter := Some mi\<rparr>))))"

definition SquelchedSource_next_block ::
  "rms \<Rightarrow> SquelchedSource \<Rightarrow> (error + SquelchedBlock AudioBlock) \<times> SquelchedSource" where
  "SquelchedSource_next_block rms s =
     (case next_block_prepare s of
        (Inl e, s1) \<Rightarrow> (Inl e, s1)
      | (Inr mi, s1) \<Rightarrow>
          (case next_block_scan rms (squelch_level s1) mi of
             (r, mi') \<Rightarrow> (r, s1\<lparr>ss_mem_iter := Some mi'\<rparr>)))"

section \<open>Successive calls\<close>

text \<open>
  The results of \<open>n\<close> successive calls of a step function (an \<open>__anext__\<close>), each on the
  state the previous call left, and the state after the last one.
\<close>

fun calls :: "('s \<Rightarrow> 'r \<times> 's) \<Rightarrow> nat \<Rightarrow> 's \<Rightarrow> 'r list \<times> 's" where
  "calls step 0 s = ([], s)"
| "calls step (Suc n) s =
     (case step s of
        (r, s') \<Rightarrow> (case calls step n s' of (rs, s'') \<Rightarrow> (r # rs, s'')))"

section \<open>Runs and examples\<close>

text \<open>
  The operations on a block, for a run of them: \<open>end()\<close>, \<open>__anext__()\<close>, and any
  operation of a subclass on its own state (such as \<open>QueueAudioBlock.add_chunk\<close>).
\<close>

datatype 's block_op = Op_end | Op_anext | Op_sub "'s \<Rightarrow> 's"

fun block_run ::
  "('s \<Rightarrow> (error + AudioChunk) \<times> 's) \<Rightarrow> 's block_op list \<Rightarrow> 's AudioBlock \<Rightarrow> 's AudioBlock" where
  "block_run next_chunk [] b = b"
| "block_run next_chunk (Op_end # ops) b = block_run next_chunk ops (block_end b)"
| "block_run next_chunk (Op_anext # ops) b =
     block_run next_chunk ops (snd (AudioBlock_anext next_chunk b))"
| "block_run next_chunk (Op_sub f # ops) b = block_run next_chunk ops (b\<lparr>sub := f (sub b)\<rparr>)"

text \<open>The items among the results of a run of calls.\<close>

fun yielded :: "(error + 'a) list \<Rightarrow> 'a list" where
  "yielded [] = []"
| "yielded (Inl e # rs) = yielded rs"
| "yielded (Inr x # rs) = x # yielded rs"


text \<open>
  An instance of the \<open>rms\<close> parameter for the examples. The RMS of a fragment that holds
  one 16-bit little-endian sample, at width 2, is the absolute value of the sample, which
  is what \<open>audioop.rms\<close> returns for it; other fragments do not occur in the examples and
  are refused. \<open>one_sample_chunk b\<close> is a chunk of one such sample, of value \<open>b\<close>.
\<close>

definition rms_one_sample :: rms where
  "rms_one_sample fragment w =
     (case fragment of
        [lo, hi] \<Rightarrow>
          (if w = 2 then
             (let v = uint lo + 256 * uint hi
              in Inr \<bar>if v < 32768 then v else v - 65536\<bar>)
           else Inl AudioopError)
      | _ \<Rightarrow> Inl AudioopError)"

definition one_sample_chunk :: "byte \<Rightarrow> AudioChunk" where
  "one_sample_chunk b = \<lparr>start_time = 0, audio = [b, 0], width = 2, freq = 16000\<rparr>"


definition ratecv_carry :: "byte ratecv" where
  "ratecv_carry fragment w n_channels inrate outrate st =
     (case fragment of
        [] \<Rightarrow> None
      | _ \<Rightarrow> Some ((case st of None \<Rightarrow> [] | Some b \<Rightarrow> [b]) @ fragment, last fragment))"

text \<open>
  For the resegmenting iterator: a chunk is well formed at width \<open>w\<close> when it has that
  width and a whole number of samples; \<open>ec_pend\<close> is the audio an iterator has still to
  give, the chunk it holds and then the chunks of its upstream (none when the upstream
  has ended); \<open>ec_wf\<close> says that all of these chunks are well formed; and \<open>ec_result\<close> is
  what one call must return from the pending audio \<open>P\<close>: the first \<open>cs\<close> samples when there
  are as many, leaving the rest pending, and \<open>StopAsyncIteration\<close> otherwise, leaving
  nothing. \<open>silence n\<close> is a chunk of \<open>n\<close> 16-bit samples.
\<close>

definition wf_chunk :: "int \<Rightarrow> AudioChunk \<Rightarrow> bool" where
  "wf_chunk w c = (width c = w \<and> int (length (audio c)) mod w = 0)"

definition ec_pend :: "EvenChunkIterator \<Rightarrow> byte list" where
  "ec_pend it =
     (case ec_cur_chunk it of None \<Rightarrow> [] | Some c \<Rightarrow> audio c)
     @ (if stopped (ec_iterator it) then [] else concat (map audio (sub (ec_iterator it))))"

definition ec_wf :: "int \<Rightarrow> EvenChunkIterator \<Rightarrow> bool" where
  "ec_wf w it =
     ((case ec_cur_chunk it of None \<Rightarrow> True | Some c \<Rightarrow> wf_chunk w c)
      \<and> list_all (wf_chunk w) (sub (ec_iterator it)))"

definition ec_result ::
  "int \<Rightarrow> int \<Rightarrow> byte list \<Rightarrow> (error + AudioChunk) \<times> EvenChunkIterator \<Rightarrow> bool" where
  "ec_result w cs P res =
     (case res of
        (r, it') \<Rightarrow>
          ec_wf w it' \<and> ec_chunk_size it' = cs
          \<and> (if nat (cs * w) \<le> length P
             then (case r of
                     Inl e \<Rightarrow> False
                   | Inr c \<Rightarrow> audio c = take (nat (cs * w)) P \<and> width c = w)
                  \<and> ec_pend it' = drop (nat (cs * w)) P
             else r = Inl StopAsyncIteration \<and> ec_pend it' = []))"

definition silence :: "nat \<Rightarrow> AudioChunk" where
  "silence n = \<lparr>start_time = 0, audio = replicate (2 * n) 0, width = 2, freq = 16000\<rparr>"

text \<open>
  For the squelched source: the window of a remembering iterator is in order for a
  capacity \<open>n\<close> when that is its memory size and it holds no more than \<open>n\<close> chunks, and
  a squelched source is in order when the window of its remembering iterator, if it has
  one, is in order for \<open>prefix_samples\<close> (as it is from \<open>SquelchedSource_init\<close> on).
  \<open>loud_start\<close> is a source of sample size 1, level 100 and a window of 4, over one
  block that begins with a sample of value 120.
\<close>

definition window_ok :: "nat \<Rightarrow> mem_iter \<Rightarrow> bool" where
  "window_ok n mi = (memory_size mi = n \<and> length (ri_buff mi) \<le> n)"

definition ss_inv :: "SquelchedSource \<Rightarrow> bool" where
  "ss_inv s = (case ss_mem_iter s of None \<Rightarrow> True | Some mi \<Rightarrow> window_ok (prefix_samples s) mi)"

definition loud_start :: SquelchedSource where
  "loud_start =
     SquelchedSource_init
       \<lparr>running = False,
        blocks = [AudioBlock_init [one_sample_chunk 120, one_sample_chunk 10]]\<rparr>
       1 (Some 100) 4"

section \<open>Facts about successive calls\<close>

lemma calls_Suc_fst:
  "fst (calls step (Suc n) s) = fst (step s) # fst (calls step n (snd (step s)))"
  by (simp split: prod.splits)

lemma calls_Suc_snd:
  "snd (calls step (Suc n) s) = snd (calls step n (snd (step s)))"
  by (simp split: prod.splits)

section \<open>Splitting and merging\<close>

lemma slice_to_from: "slice_to xs i @ slice_from xs i = xs"
  by (simp add: slice_to_def slice_from_def)

lemma chunk_sample_cnt_pos:
  assumes "0 < width c"
  shows "chunk_sample_cnt c = Inr (int (length (audio c)) div width c)"
proof (cases "audio c")
  case Nil
  then show ?thesis using assms by (simp add: chunk_sample_cnt_def int_truediv_def)
next
  case (Cons b bs)
  then show ?thesis using assms by (simp add: chunk_sample_cnt_def int_truediv_def)
qed

lemma offset_in_range:
  assumes w: "0 < w" and k0: "0 \<le> k" and k: "k \<le> n div w"
  shows "k * w \<le> (n::int)"
proof -
  have "k * w \<le> (n div w) * w" using k w by (simp add: mult_right_mono)
  also have "\<dots> \<le> n"
    using div_mult_mod_eq [of n w] pos_mod_sign [OF w, of n] by linarith
  finally show ?thesis .
qed

text \<open>
  C4. For a chunk of positive width and a sample offset \<open>k\<close> between 0 and the chunk's
  sample count, merging the two halves of \<open>split_chunk c k\<close> gives back the chunk: the
  same audio bytes (and start time, width and frequency); both halves keep the start
  time, width and frequency of the chunk; and the cut is at byte \<open>k * width\<close>: the first
  half is the first \<open>k * width\<close> bytes and the second half is the rest.
\<close>

theorem split_merge_roundtrip:
  assumes "0 < width c" and "0 \<le> k" and "chunk_sample_cnt c = Inr n" and "k \<le> n"
  shows "merge_chunks [fst (split_chunk c k), snd (split_chunk c k)] = Inr c
       \<and> start_time (fst (split_chunk c k)) = start_time c
       \<and> width (fst (split_chunk c k)) = width c
       \<and> freq (fst (split_chunk c k)) = freq c
       \<and> start_time (snd (split_chunk c k)) = start_time c
       \<and> width (snd (split_chunk c k)) = width c
       \<and> freq (snd (split_chunk c k)) = freq c
       \<and> audio (fst (split_chunk c k)) = take (nat (k * width c)) (audio c)
       \<and> audio (snd (split_chunk c k)) = drop (nat (k * width c)) (audio c)
       \<and> int (length (audio (fst (split_chunk c k)))) = k * width c"
proof -
  have n: "n = int (length (audio c)) div width c"
    using assms(1,3) by (simp add: chunk_sample_cnt_pos)
  have le: "k * width c \<le> int (length (audio c))"
    using offset_in_range [OF assms(1) assms(2)] assms(4) n by simp
  have ge: "0 \<le> k * width c" using assms(1,2) by simp
  have b: "slice_bound (audio c) (k * width c) = nat (k * width c)"
    using le ge by (simp add: slice_bound_def min_def)
  have m: "merge_chunks [fst (split_chunk c k), snd (split_chunk c k)] = Inr c"
    by (simp add: merge_chunks_def split_chunk_def Let_def slice_to_from)
  have l: "int (length (take (nat (k * width c)) (audio c))) = k * width c"
    using le ge by (cases "length (audio c) \<le> nat (k * width c)") auto
  show ?thesis
    using m b l by (simp add: split_chunk_def Let_def slice_to_def slice_from_def)
qed

theorem split_merge_roundtrip_witness:
  "merge_chunks
     [fst (split_chunk \<lparr>start_time = 7, audio = [1, 2, 3, 4, 5, 6], width = 2, freq = 16000\<rparr> 1),
      snd (split_chunk \<lparr>start_time = 7, audio = [1, 2, 3, 4, 5, 6], width = 2, freq = 16000\<rparr> 1)]
     = Inr \<lparr>start_time = 7, audio = [1, 2, 3, 4, 5, 6], width = 2, freq = 16000\<rparr>
   \<and> audio (fst (split_chunk \<lparr>start_time = 7, audio = [1, 2, 3, 4, 5, 6], width = 2, freq = 16000\<rparr> 1))
     = [1, 2]
   \<and> audio (snd (split_chunk \<lparr>start_time = 7, audio = [1, 2, 3, 4, 5, 6], width = 2, freq = 16000\<rparr> 1))
     = [3, 4, 5, 6]"
proof -
  let ?c = "\<lparr>start_time = 7, audio = [1, 2, 3, 4, 5, 6 :: byte], width = 2, freq = 16000\<rparr>"
  have w: "0 < width ?c" by simp
  have k: "(0::int) \<le> 1" by simp
  have n: "chunk_sample_cnt ?c = Inr 3"
    by (simp add: chunk_sample_cnt_def int_truediv_def)
  have kn: "(1::int) \<le> 3" by simp
  show ?thesis
    using split_merge_roundtrip [OF w k n kn] by simp
qed

section \<open>The ended flag of a block\<close>

lemma anext_keeps_stopped:
  "stopped b \<Longrightarrow> stopped (snd (AudioBlock_anext nc b))"
  by (simp add: AudioBlock_anext_def)

lemma block_run_stopped:
  "stopped b \<Longrightarrow> stopped (block_run nc ops b)"
proof (induction ops arbitrary: b)
  case Nil
  then show ?case by simp
next
  case (Cons op ops)
  show ?case
  proof (cases op)
    case Op_end
    then show ?thesis using Cons by (simp add: block_end_def)
  next
    case Op_anext
    then show ?thesis using Cons by (simp add: anext_keeps_stopped)
  next
    case (Op_sub f)
    then show ?thesis using Cons by simp
  qed
qed

text \<open>
  C5. Once a block has ended, it stays ended through every run of operations (\<open>end()\<close>,
  \<open>__anext__()\<close>, operations of the subclass on its own state): nothing clears the flag.
  And every iteration step on it then raises \<open>StopAsyncIteration\<close>, yields no chunk and
  leaves the block as it is.
\<close>

theorem ended_monotonic:
  assumes "ended b"
  shows "ended (block_run next_chunk ops b)
       \<and> AudioBlock_anext next_chunk (block_run next_chunk ops b)
           = (Inl StopAsyncIteration, block_run next_chunk ops b)"
  using block_run_stopped [of b next_chunk ops] assms
  by (simp add: ended_def AudioBlock_anext_def)

theorem ended_monotonic_witness:
  "ended (block_end (AudioBlock_init [\<lparr>start_time = 0, audio = [1, 2], width = 2, freq = 8000\<rparr>]))
   \<and> ended (block_run list_next_chunk [Op_anext, Op_sub (\<lambda>q. q @ q), Op_end, Op_anext]
        (block_end (AudioBlock_init [\<lparr>start_time = 0, audio = [1, 2], width = 2, freq = 8000\<rparr>])))
   \<and> fst (AudioBlock_anext list_next_chunk
        (block_run list_next_chunk [Op_anext, Op_sub (\<lambda>q. q @ q), Op_end, Op_anext]
          (block_end (AudioBlock_init [\<lparr>start_time = 0, audio = [1, 2], width = 2, freq = 8000\<rparr>]))))
       = Inl StopAsyncIteration"
proof -
  let ?b = "block_end (AudioBlock_init [\<lparr>start_time = 0, audio = [1, 2 :: byte], width = 2, freq = 8000\<rparr>])"
  have e: "ended ?b" by (simp add: ended_def block_end_def AudioBlock_init_def)
  show ?thesis
    using e ended_monotonic [OF e, of list_next_chunk "[Op_anext, Op_sub (\<lambda>q. q @ q), Op_end, Op_anext]"]
    by simp
qed

section \<open>The window of the remembering iterator\<close>

lemma deque_append_last:
  assumes "length d \<le> n"
  shows "deque_append n d x = drop (length (d @ [x]) - n) (d @ [x])"
proof (cases "n < length (d @ [x])")
  case True
  with assms have n: "n = length d" by simp
  show ?thesis
    unfolding n by (cases d) (simp_all add: deque_append_def Let_def)
next
  case False
  then show ?thesis by (simp add: deque_append_def Let_def)
qed

lemma deque_append_length:
  assumes "length d \<le> n"
  shows "length (deque_append n d x) \<le> n"
  using assms by (auto simp: deque_append_def Let_def)

lemma drop_last_append:
  "drop (length (drop (length d - n) d @ xs) - n) (drop (length d - n) d @ xs)
     = drop (length (d @ xs) - (n::nat)) (d @ xs)"
  by (cases "length d \<le> n") (auto simp: add.commute)

lemma remembering_calls:
  assumes "calls (RememberingIterator_anext nxt) m ri = (rs, ri')"
    and "length (ri_buff ri) \<le> memory_size ri"
  shows "ri_buff ri' = drop (length (ri_buff ri @ yielded rs) - memory_size ri) (ri_buff ri @ yielded rs)
       \<and> memory_size ri' = memory_size ri"
  using assms
proof (induction m arbitrary: ri rs ri')
  case 0
  then show ?case by simp
next
  case (Suc m)
  obtain r ri1 where step: "RememberingIterator_anext nxt ri = (r, ri1)"
    by (cases "RememberingIterator_anext nxt ri")
  obtain rs1 ri2 where rest: "calls (RememberingIterator_anext nxt) m ri1 = (rs1, ri2)"
    by (cases "calls (RememberingIterator_anext nxt) m ri1")
  from Suc.prems(1) step rest have rs: "rs = r # rs1" and ri': "ri' = ri2" by simp_all
  show ?case
  proof (cases r)
    case (Inl e)
    with step have b1: "ri_buff ri1 = ri_buff ri" and m1: "memory_size ri1 = memory_size ri"
      by (auto simp: RememberingIterator_anext_def split: prod.splits sum.splits)
    from Suc.IH [OF rest] b1 m1 Suc.prems(2) rs ri' Inl show ?thesis by simp
  next
    case (Inr x)
    with step have b1: "ri_buff ri1 = deque_append (memory_size ri) (ri_buff ri) x"
      and m1: "memory_size ri1 = memory_size ri"
      by (auto simp: RememberingIterator_anext_def split: prod.splits sum.splits)
    have l1: "length (ri_buff ri1) \<le> memory_size ri1"
      using b1 m1 deque_append_length [OF Suc.prems(2)] by simp
    have "ri_buff ri2 = drop (length (ri_buff ri1 @ yielded rs1) - memory_size ri1) (ri_buff ri1 @ yielded rs1)"
      and m2: "memory_size ri2 = memory_size ri1"
      using Suc.IH [OF rest l1] by simp_all
    then have "ri_buff ri2 = drop (length ((ri_buff ri @ [x]) @ yielded rs1) - memory_size ri) ((ri_buff ri @ [x]) @ yielded rs1)"
      using b1 m1 deque_append_last [OF Suc.prems(2), of x]
        drop_last_append [of "ri_buff ri @ [x]" "memory_size ri" "yielded rs1"] by simp
    with rs ri' Inr m1 m2 show ?thesis by simp
  qed
qed

text \<open>
  C7. After any number of calls of a remembering iterator of capacity \<open>n\<close>, started empty,
  its memory is the last \<open>min M n\<close> of the \<open>M\<close> items the calls returned, in the order
  they were returned: the oldest item goes first when the window is full. \<open>memory\<close> is a
  function of the state alone and returns no new state: reading changes nothing.
\<close>

theorem remembering_window:
  "memory (snd (calls (RememberingIterator_anext nxt) m (RememberingIterator_init it n)))
     = drop (length (yielded (fst (calls (RememberingIterator_anext nxt) m
                                     (RememberingIterator_init it n)))) - n)
         (yielded (fst (calls (RememberingIterator_anext nxt) m (RememberingIterator_init it n))))
   \<and> length (memory (snd (calls (RememberingIterator_anext nxt) m (RememberingIterator_init it n))))
     = min (length (yielded (fst (calls (RememberingIterator_anext nxt) m
                                    (RememberingIterator_init it n))))) n"
proof -
  obtain rs ri' where c:
    "calls (RememberingIterator_anext nxt) m (RememberingIterator_init it n) = (rs, ri')"
    by (cases "calls (RememberingIterator_anext nxt) m (RememberingIterator_init it n)")
  from remembering_calls [OF c]
  show ?thesis unfolding c by (auto simp: memory_def RememberingIterator_init_def)
qed

theorem remembering_window_witness:
  "memory (snd (calls (RememberingIterator_anext list_next_chunk) 4
      (RememberingIterator_init
         [one_sample_chunk 1, one_sample_chunk 2, one_sample_chunk 3] 2)))
   = [one_sample_chunk 2, one_sample_chunk 3]"
proof -
  have c: "calls (RememberingIterator_anext list_next_chunk) 4
      (RememberingIterator_init [one_sample_chunk 1, one_sample_chunk 2, one_sample_chunk 3] 2)
     = ([Inr (one_sample_chunk 1), Inr (one_sample_chunk 2), Inr (one_sample_chunk 3),
         Inl StopAsyncIteration],
        \<lparr>ri_iterator = [], memory_size = 2,
         ri_buff = [one_sample_chunk 2, one_sample_chunk 3]\<rparr>)"
    by (simp add: eval_nat_numeral RememberingIterator_anext_def RememberingIterator_init_def
        list_next_chunk_def deque_append_def)
  show ?thesis
    using remembering_window [of list_next_chunk 4
        "[one_sample_chunk 1, one_sample_chunk 2, one_sample_chunk 3]" 2]
    unfolding c by simp
qed

section \<open>Starting a squelched source\<close>

text \<open>
  Starting a source whose level was never set fails with \<open>AssertionError\<close>, the error of
  every failing \<open>assert\<close> of the module, and not with an error kind of its own.
\<close>

theorem start_unset_level_counterexample:
  "fst (SquelchedSource_start (SquelchedSource_init \<lparr>running = False, blocks = []\<rparr> 1600 None 4))
     = Inl AssertionError"
  by (simp add: SquelchedSource_start_def SquelchedSource_init_def)

text \<open>
  C9, as the code has it. Starting a squelched source whose level is unset fails with
  \<open>AssertionError\<close>, which is also what \<open>merge_chunks\<close> raises on an empty sequence, and
  starts nothing; with a level set, the source and its input source are started.
\<close>

theorem start_unset_level_asserts:
  "SquelchedSource_start (s\<lparr>squelch_level := None\<rparr>) = (Inl AssertionError, s\<lparr>squelch_level := None\<rparr>)
   \<and> merge_chunks [] = Inl AssertionError
   \<and> SquelchedSource_start (s\<lparr>squelch_level := Some l\<rparr>)
       = (Inr (), s\<lparr>squelch_level := Some l, ss_running := True,
                    ss_source := (ss_source s)\<lparr>running := True\<rparr>\<rparr>)"
  by (simp add: SquelchedSource_start_def merge_chunks_def AudioSourceProcessor_start_def
      AudioSource_start_def)

theorem start_unset_level_asserts_witness:
  "SquelchedSource_start (SquelchedSource_init \<lparr>running = False, blocks = []\<rparr> 1600 None 4)
     = (Inl AssertionError, SquelchedSource_init \<lparr>running = False, blocks = []\<rparr> 1600 None 4)
   \<and> fst (SquelchedSource_start
            (SquelchedSource_init \<lparr>running = False, blocks = []\<rparr> 1600 (Some 90) 4)) = Inr ()"
  using start_unset_level_asserts
    [of "SquelchedSource_init \<lparr>running = False, blocks = []\<rparr> 1600 None 4" 90]
  by (simp add: SquelchedSource_init_def)

section \<open>The squelch decision\<close>



lemma median_rms_Nil: "median_rms rms [] = Inl IndexError"
  by (simp add: median_rms_def list_index_def trunc_def)


lemma median_one [simp]:
  "median_rms rms_one_sample [one_sample_chunk b] = Inr (uint b)"
proof -
  have "uint b < 256" using uint_bounded [of b] by simp
  then show ?thesis
    by (simp add: median_rms_def rms_one_sample_def one_sample_chunk_def list_index_def
        trunc_def Let_def)
qed






section \<open>Calibration\<close>








section \<open>Rate conversion of a block\<close>

lemma rate_convert_step:
  "AudioBlock_anext (RateConvertBlock_next_chunk ratecv)
      \<lparr>stopped = False,
       sub = \<lparr>rc_src_block = \<lparr>stopped = False, sub = c # cs\<rparr>, rc_n_channels = n,
              rc_out_rate = out, rc_state = st\<rparr>\<rparr>
   = (case ratecv (audio c) 2 n (freq c) out st of
        None \<Rightarrow>
          (Inl AudioopError,
           \<lparr>stopped = False,
            sub = \<lparr>rc_src_block = \<lparr>stopped = False, sub = cs\<rparr>, rc_n_channels = n,
                   rc_out_rate = out, rc_state = st\<rparr>\<rparr>)
      | Some (new_aud, st') \<Rightarrow>
          (Inr \<lparr>start_time = start_time c, audio = new_aud, width = 2, freq = out\<rparr>,
           \<lparr>stopped = False,
            sub = \<lparr>rc_src_block = \<lparr>stopped = False, sub = cs\<rparr>, rc_n_channels = n,
                   rc_out_rate = out, rc_state = Some st'\<rparr>\<rparr>))"
  by (simp add: AudioBlock_anext_def RateConvertBlock_next_chunk_def list_next_chunk_def
      split: option.splits prod.splits)

lemma rate_convert_calls:
  "fst (calls (AudioBlock_anext (RateConvertBlock_next_chunk ratecv)) (length chunks)
          \<lparr>stopped = False,
           sub = \<lparr>rc_src_block = \<lparr>stopped = False, sub = chunks\<rparr>, rc_n_channels = n,
                  rc_out_rate = out, rc_state = st\<rparr>\<rparr>)
     = threaded_conversion ratecv n out st chunks"
proof (induction chunks arbitrary: st)
  case Nil
  show ?case by simp
next
  case (Cons c cs)
  show ?case
  proof (cases "ratecv (audio c) 2 n (freq c) out st")
    case None
    then show ?thesis
      using Cons [of st] by (simp add: rate_convert_step calls_Suc_fst del: calls.simps)
  next
    case (Some p)
    obtain a st' where p: "p = (a, st')" by (cases p)
    show ?thesis
      using Some p Cons [of "Some st'"]
      by (simp add: rate_convert_step calls_Suc_fst del: calls.simps)
  qed
qed

lemma threaded_nth:
  "i < length chunks \<Longrightarrow>
     (case threaded_conversion ratecv n out st chunks ! i of
        Inl e \<Rightarrow> True
      | Inr c \<Rightarrow> start_time c = start_time (chunks ! i) \<and> width c = 2 \<and> freq c = out)"
proof (induction chunks arbitrary: st i)
  case Nil
  then show ?case by simp
next
  case (Cons c cs)
  show ?case
  proof (cases i)
    case 0
    then show ?thesis by (auto split: option.splits)
  next
    case (Suc j)
    with Cons.prems have j: "j < length cs" by simp
    show ?thesis
    proof (cases "ratecv (audio c) 2 n (freq c) out st")
      case None
      with Cons.IH [OF j, of st] Suc show ?thesis by (auto split: sum.splits)
    next
      case (Some p)
      obtain a st' where p: "p = (a, st')" by (cases p)
      with Some Cons.IH [OF j, of "Some st'"] Suc show ?thesis by (auto split: sum.splits)
    qed
  qed
qed

text \<open>
  C8. The results of iterating a rate-converted block over its source chunks are those of
  the threaded conversion: the state returned by the conversion of one chunk is the state
  given to the conversion of the next (starting from \<open>None\<close>, never reset), and every
  output chunk has the start time of its input chunk, width 2 and the output rate.
\<close>

theorem rate_convert_threads_state:
  "fst (calls (AudioBlock_anext (RateConvertBlock_next_chunk ratecv)) (length chunks)
          (RateConvertBlock_init (AudioBlock_init chunks) n_channels out_rate))
     = threaded_conversion ratecv n_channels out_rate None chunks
   \<and> (\<forall>i < length chunks.
        case fst (calls (AudioBlock_anext (RateConvertBlock_next_chunk ratecv)) (length chunks)
                    (RateConvertBlock_init (AudioBlock_init chunks) n_channels out_rate)) ! i of
          Inl e \<Rightarrow> True
        | Inr c \<Rightarrow> start_time c = start_time (chunks ! i) \<and> width c = 2 \<and> freq c = out_rate)"
proof -
  have e: "fst (calls (AudioBlock_anext (RateConvertBlock_next_chunk ratecv)) (length chunks)
          (RateConvertBlock_init (AudioBlock_init chunks) n_channels out_rate))
     = threaded_conversion ratecv n_channels out_rate None chunks"
    using rate_convert_calls [of ratecv chunks n_channels out_rate None]
    by (simp add: RateConvertBlock_init_def AudioBlock_init_def)
  show ?thesis unfolding e using threaded_nth by blast
qed


theorem rate_convert_threads_state_witness:
  "fst (calls (AudioBlock_anext (RateConvertBlock_next_chunk ratecv_carry)) 3
          (RateConvertBlock_init
             (AudioBlock_init
                [\<lparr>start_time = 5, audio = [1, 2], width = 1, freq = 44100\<rparr>,
                 \<lparr>start_time = 6, audio = [], width = 1, freq = 44100\<rparr>,
                 \<lparr>start_time = 7, audio = [3, 4], width = 1, freq = 44100\<rparr>])
             1 16000))
   = [Inr \<lparr>start_time = 5, audio = [1, 2], width = 2, freq = 16000\<rparr>,
      Inl AudioopError,
      Inr \<lparr>start_time = 7, audio = [2, 3, 4], width = 2, freq = 16000\<rparr>]"
proof -
  let ?cs = "[\<lparr>start_time = 5, audio = [1, 2 :: byte], width = 1, freq = 44100\<rparr>,
          \<lparr>start_time = 6, audio = [], width = 1, freq = 44100\<rparr>,
          \<lparr>start_time = 7, audio = [3, 4], width = 1, freq = 44100\<rparr>]"
  have l: "length ?cs = 3" by simp
  have "fst (calls (AudioBlock_anext (RateConvertBlock_next_chunk ratecv_carry)) (length ?cs)
          (RateConvertBlock_init (AudioBlock_init ?cs) 1 16000))
        = threaded_conversion ratecv_carry 1 16000 None ?cs"
    using rate_convert_threads_state [of ratecv_carry ?cs 1 16000] by (rule conjunct1)
  then have "fst (calls (AudioBlock_anext (RateConvertBlock_next_chunk ratecv_carry)) 3
          (RateConvertBlock_init (AudioBlock_init ?cs) 1 16000))
        = threaded_conversion ratecv_carry 1 16000 None ?cs"
    by (simp only: l)
  also have "\<dots> = [Inr \<lparr>start_time = 5, audio = [1, 2], width = 2, freq = 16000\<rparr>,
      Inl AudioopError,
      Inr \<lparr>start_time = 7, audio = [2, 3, 4], width = 2, freq = 16000\<rparr>]"
    by (simp add: ratecv_carry_def)
  finally show ?thesis .
qed

section \<open>Resegmenting\<close>

lemma ec_fetch_Inl:
  assumes "ec_fetch it = (Inl e, it1)" and "ec_wf w it"
  shows "e = StopAsyncIteration \<and> ec_pend it = [] \<and> ec_pend it1 = [] \<and> ec_wf w it1
       \<and> ec_chunk_size it1 = ec_chunk_size it"
  using assms
  by (auto simp: ec_fetch_def ec_pend_def ec_wf_def AudioBlock_anext_def list_next_chunk_def
      block_end_def split: option.splits if_splits list.splits prod.splits)

lemma ec_fetch_Inr:
  assumes "ec_fetch it = (Inr chunk, it1)" and "ec_wf w it"
  shows "wf_chunk w chunk \<and> ec_pend it = audio chunk @ ec_pend (it1\<lparr>ec_cur_chunk := None\<rparr>)
       \<and> ec_wf w (it1\<lparr>ec_cur_chunk := None\<rparr>) \<and> ec_chunk_size it1 = ec_chunk_size it
       \<and> ec_iterator (it1\<lparr>ec_cur_chunk := None\<rparr>) = ec_iterator it1"
  using assms
  by (auto simp: ec_fetch_def ec_pend_def ec_wf_def AudioBlock_anext_def list_next_chunk_def
      block_end_def split: option.splits if_splits list.splits prod.splits)

lemma wf_chunk_cnt:
  assumes "wf_chunk w c" and "0 < w"
  shows "\<exists>k. chunk_sample_cnt c = Inr k \<and> int (length (audio c)) = k * w \<and> 0 \<le> k"
proof -
  have "width c = w" and m: "int (length (audio c)) mod w = 0"
    using assms(1) by (simp_all add: wf_chunk_def)
  then have c: "chunk_sample_cnt c = Inr (int (length (audio c)) div w)"
    using chunk_sample_cnt_pos [of c] assms(2) by simp
  have "int (length (audio c)) = (int (length (audio c)) div w) * w"
    using m by (simp add: mod_eq_0_iff_dvd)
  moreover have "0 \<le> int (length (audio c)) div w"
    using assms(2) by (simp add: pos_imp_zdiv_nonneg_iff)
  ultimately show ?thesis using c by blast
qed

lemma merge_wf:
  assumes "list_all (wf_chunk w) q" and "q \<noteq> []"
  shows "\<exists>m. merge_chunks q = Inr m \<and> audio m = concat (map audio q) \<and> width m = w"
  using assms by (cases q) (auto simp: merge_chunks_def wf_chunk_def)


lemma split_audio:
  assumes "0 \<le> off" and "nat off \<le> length (audio m)" and "off = cs * width m"
  shows "audio (fst (split_chunk m cs)) = take (nat off) (audio m)
       \<and> audio (snd (split_chunk m cs)) = drop (nat off) (audio m)
       \<and> width (snd (split_chunk m cs)) = width m"
proof -
  have "off \<le> int (length (audio m))" using assms(1,2) by linarith
  then have "slice_bound (audio m) off = nat off"
    using assms(1) by (simp add: slice_bound_def Let_def min_def)
  then show ?thesis
    using assms(3) by (simp add: split_chunk_def Let_def slice_to_def slice_from_def)
qed

lemma length_drop_int:
  "n \<le> length xs \<Longrightarrow> int (length (drop n xs)) = int (length xs) - int n"
  by simp

lemma even_loop_result:
  assumes "0 < w" and "0 < ec_chunk_size it" and "ec_wf w it" and "list_all (wf_chunk w) q"
    and "int (length (concat (map audio q))) = ret * w"
    and "ret < ec_chunk_size it \<or> (ret = ec_chunk_size it \<and> q \<noteq> [])"
  shows "ec_result w (ec_chunk_size it) (concat (map audio q) @ ec_pend it) (even_loop it q ret)"
  using assms
proof (induction it q ret rule: even_loop.induct)
  case (1 it q ret)
  let ?cs = "ec_chunk_size it"
  let ?Q = "concat (map audio q)"
  let ?n = "nat (?cs * w)"
  note w = "1.prems"(1) and cs = "1.prems"(2) and wf = "1.prems"(3) and wq = "1.prems"(4)
    and len = "1.prems"(5) and inv = "1.prems"(6)
  have n0: "0 \<le> ?cs * w" using w cs by simp
  show ?case
  proof (cases "ret < ?cs")
    case False
    with inv have ret: "ret = ?cs" and qne: "q \<noteq> []" by simp_all
    from merge_wf [OF wq qne] obtain m where
      m: "merge_chunks q = Inr m" "audio m = ?Q" "width m = w" by blast
    have lq: "length ?Q = ?n" using len ret n0 by (metis nat_int)
    have e: "even_loop it q ret = (Inr m, it)"
      using False m(1) by (simp add: even_loop.simps)
    show ?thesis
      unfolding e using wf m lq by (simp add: ec_result_def)
  next
    case True
    have lq: "length ?Q < ?n"
    proof -
      have "ret * w < ?cs * w" using True w by simp
      then have "int (length ?Q) < ?cs * w" using len by simp
      then show ?thesis by linarith
    qed
    obtain r it1 where f: "ec_fetch it = (r, it1)" by (cases "ec_fetch it")
    show ?thesis
    proof (cases r)
      case (Inl e)
      from ec_fetch_Inl [OF f [unfolded Inl] wf]
      have fe: "e = StopAsyncIteration" "ec_pend it = []" "ec_pend it1 = []" "ec_wf w it1"
        "ec_chunk_size it1 = ?cs" by simp_all
      have e: "even_loop it q ret = (Inl StopAsyncIteration, it1)"
        using True f Inl fe(1) by (simp add: even_loop.simps)
      show ?thesis
        unfolding e using fe lq by (simp add: ec_result_def)
    next
      case (Inr chunk)
      let ?it2 = "it1\<lparr>ec_cur_chunk := None\<rparr>"
      from ec_fetch_Inr [OF f [unfolded Inr] wf]
      have fc: "wf_chunk w chunk" "ec_pend it = audio chunk @ ec_pend ?it2" "ec_wf w ?it2"
        "ec_chunk_size it1 = ?cs" "ec_iterator ?it2 = ec_iterator it1" by simp_all
      from wf_chunk_cnt [OF fc(1) w] obtain k where
        k: "chunk_sample_cnt chunk = Inr k" "int (length (audio chunk)) = k * w" "0 \<le> k"
        by blast
      let ?q' = "q @ [chunk]"
      let ?Q' = "concat (map audio ?q')"
      have wq': "list_all (wf_chunk w) ?q'" using wq fc(1) by simp
      have len': "int (length ?Q') = (ret + k) * w"
        using len k(2) by (simp add: algebra_simps)
      have P: "?Q @ ec_pend it = ?Q' @ ec_pend ?it2" using fc(2) by simp
      show ?thesis
      proof (cases "ret + k > ?cs")
        case big: True
        from merge_wf [OF wq'] obtain m where
          m: "merge_chunks ?q' = Inr m" "audio m = ?Q'" "width m = w" by blast
        have "?cs * w < (ret + k) * w" using big w by simp
        then have "?cs * w \<le> int (length ?Q')" using len' by simp
        then have "?n \<le> length ?Q'" by (simp only: nat_le_iff)
        then have nl: "?n \<le> length (audio m)" using m(2) by simp
        from split_audio [OF n0 nl] m(3)
        have sp: "audio (fst (split_chunk m ?cs)) = take ?n ?Q'"
          "audio (snd (split_chunk m ?cs)) = drop ?n ?Q'"
          "width (snd (split_chunk m ?cs)) = w"
          using m(2) by simp_all
        have e: "even_loop it q ret
                 = (Inr (fst (split_chunk m ?cs)), it1\<lparr>ec_cur_chunk := Some (snd (split_chunk m ?cs))\<rparr>)"
          using True f Inr k(1) big m(1) by (simp add: even_loop.simps split: prod.splits)
        have wfst: "width (fst (split_chunk m ?cs)) = w"
          using m(3) by (simp add: split_chunk_def Let_def)
        have "int (length (drop ?n ?Q')) = (ret + k - ?cs) * w"
        proof -
          have "?n \<le> length ?Q'" using nl m(2) by simp
          from length_drop_int [OF this]
          have "int (length (drop ?n ?Q')) = int (length ?Q') - int ?n" .
          also have "\<dots> = (ret + k) * w - ?cs * w" using n0 by (simp only: len' int_nat_eq if_True)
          finally show ?thesis by (simp add: algebra_simps)
        qed
        then have "int (length (drop ?n ?Q')) mod w = 0" by simp
        then have wl: "wf_chunk w (snd (split_chunk m ?cs))"
          using sp(2,3) by (simp add: wf_chunk_def)
        have wf': "ec_wf w (it1\<lparr>ec_cur_chunk := Some (snd (split_chunk m ?cs))\<rparr>)"
          using fc(3) wl by (simp add: ec_wf_def)
        have pend': "ec_pend (it1\<lparr>ec_cur_chunk := Some (snd (split_chunk m ?cs))\<rparr>)
                     = drop ?n ?Q' @ ec_pend ?it2"
          using sp(2) by (simp add: ec_pend_def)
        have nl': "?n \<le> length ?Q'" using nl m(2) by simp
        show ?thesis
          unfolding e P using wf' pend' fc(4) sp(1) wfst nl'
          by (simp add: ec_result_def)
      next
        case small: False
        have e: "even_loop it q ret = even_loop ?it2 ?q' (ret + k)"
          using True f Inr k(1) small by (simp add: even_loop.simps)
        have cs2: "ec_chunk_size ?it2 = ?cs" using fc(4) by simp
        have inv': "ret + k < ec_chunk_size ?it2 \<or> (ret + k = ec_chunk_size ?it2 \<and> ?q' \<noteq> [])"
          using small cs2 by auto
        have "ec_result w (ec_chunk_size ?it2) (?Q' @ ec_pend ?it2) (even_loop ?it2 ?q' (ret + k))"
          using "1.IH" [OF True f [symmetric] Inr k(1) small w _ fc(3) wq' len' inv'] cs cs2
          by simp
        then show ?thesis unfolding e P cs2 .
      qed
    qed
  qed
qed

lemma EvenChunkIterator_anext_result:
  assumes "0 < w" and "0 < ec_chunk_size it" and "ec_wf w it"
  shows "ec_result w (ec_chunk_size it) (ec_pend it) (EvenChunkIterator_anext it)"
  using even_loop_result [OF assms, of "[]" 0] assms(2)
  by (simp add: EvenChunkIterator_anext_def)


lemma even_calls:
  assumes "0 < w" and "0 < cs" and "ec_wf w it" and "ec_chunk_size it = cs" and "i < m"
  shows "if i < length (ec_pend it) div nat (cs * w)
         then \<exists>c. fst (calls EvenChunkIterator_anext m it) ! i = Inr c
                \<and> audio c = take (nat (cs * w)) (drop (i * nat (cs * w)) (ec_pend it))
                \<and> width c = w
         else fst (calls EvenChunkIterator_anext m it) ! i = Inl StopAsyncIteration"
  using assms(3,4,5)
proof (induction m arbitrary: it i)
  case 0
  then show ?case by simp
next
  case (Suc m)
  let ?n = "nat (cs * w)"
  let ?P = "ec_pend it"
  have npos: "0 < ?n" using assms(1,2) by simp
  obtain r it' where st: "EvenChunkIterator_anext it = (r, it')"
    by (cases "EvenChunkIterator_anext it")
  have res: "ec_result w cs ?P (r, it')"
    using EvenChunkIterator_anext_result [OF assms(1) _ Suc.prems(1)] Suc.prems(2) assms(2) st
    by simp
  then have wf': "ec_wf w it'" and cs': "ec_chunk_size it' = cs"
    by (simp_all add: ec_result_def)
  have fst0: "fst (calls EvenChunkIterator_anext (Suc m) it) ! 0 = r"
    by (simp add: calls_Suc_fst st del: calls.simps)
  have fstS: "fst (calls EvenChunkIterator_anext (Suc m) it) ! Suc j
              = fst (calls EvenChunkIterator_anext m it') ! j" for j
    by (simp add: calls_Suc_fst st del: calls.simps)
  show ?case
  proof (cases "?n \<le> length ?P")
    case True
    then have k: "0 < length ?P div ?n" using npos by (simp add: div_greater_zero_iff)
    from res True obtain c where c: "r = Inr c" "audio c = take ?n ?P" "width c = w"
      and p': "ec_pend it' = drop ?n ?P"
      by (auto simp: ec_result_def split: sum.splits)
    have k': "length (ec_pend it') div ?n = length ?P div ?n - 1"
      using p' True npos by (simp add: le_div_geq)
    show ?thesis
    proof (cases i)
      case 0
      then show ?thesis using k c fst0 by simp
    next
      case (Suc j)
      with Suc.prems(3) have j: "j < m" by simp
      have d: "drop (j * ?n) (ec_pend it') = drop (Suc j * ?n) ?P"
        using p' by (simp add: add.commute)
      have iff: "j < length (ec_pend it') div ?n \<longleftrightarrow> Suc j < length ?P div ?n"
        using k' k by auto
      from Suc.IH [OF wf' cs' j] show ?thesis
        unfolding Suc fstS d iff .
    qed
  next
    case False
    then have k: "length ?P div ?n = 0" by simp
    from res False have r: "r = Inl StopAsyncIteration" and p': "ec_pend it' = []"
      by (simp_all add: ec_result_def)
    show ?thesis
    proof (cases i)
      case 0
      then show ?thesis using k r fst0 by simp
    next
      case (Suc j)
      with Suc.prems(3) have j: "j < m" by simp
      from Suc.IH [OF wf' cs' j] show ?thesis
        unfolding Suc fstS using p' k by simp
    qed
  qed
qed

lemma init_pend:
  "ec_pend (EvenChunkIterator_init (AudioBlock_init chunks) cs) = concat (map audio chunks)"
  by (simp add: ec_pend_def EvenChunkIterator_init_def AudioBlock_init_def)

lemma init_wf:
  "list_all (wf_chunk w) chunks \<Longrightarrow> ec_wf w (EvenChunkIterator_init (AudioBlock_init chunks) cs)"
  by (simp add: ec_wf_def EvenChunkIterator_init_def AudioBlock_init_def)

text \<open>
  The scenario of the specification: width 2, chunks of 160 samples, and an upstream of
  three chunks of 100 samples. The first call returns 160 samples; the second and the
  third find the upstream exhausted with 140 samples pending and raise
  \<open>StopAsyncIteration\<close>: there is no third output of 20 samples, and 160 of the 300 samples
  are yielded.
\<close>

theorem even_chunks_scenario_counterexample:
  "map (map_sum id chunk_sample_cnt)
     (fst (calls EvenChunkIterator_anext 3
        (EvenChunkIterator_init (AudioBlock_init [silence 100, silence 100, silence 100]) 160)))
   = [Inr (Inr 160), Inl StopAsyncIteration, Inl StopAsyncIteration]"
  by code_simp


text \<open>
  C1, as the code has it. For a positive chunk size and an upstream of well-formed chunks
  of one positive width \<open>w\<close>, call \<open>i\<close> of the iterator (counted from 0) returns the
  \<open>i\<close>-th run of \<open>chunk_size\<close> samples of the upstream audio, a chunk of exactly
  \<open>chunk_size\<close> samples, as long as the upstream holds that many whole runs; every
  later call raises \<open>StopAsyncIteration\<close>. The samples pending when the upstream is
  exhausted, fewer than \<open>chunk_size\<close>, are not yielded: no shorter final chunk exists.
\<close>

theorem even_chunks_drop_remainder:
  assumes "0 < chunk_size" and "0 < w"
    and "list_all (\<lambda>c. width c = w \<and> int (length (audio c)) mod w = 0) chunks"
    and "i < m"
  shows "if i < length (concat (map audio chunks)) div nat (chunk_size * w)
         then \<exists>c. fst (calls EvenChunkIterator_anext m
                          (EvenChunkIterator_init (AudioBlock_init chunks) chunk_size)) ! i = Inr c
                \<and> audio c = take (nat (chunk_size * w))
                              (drop (i * nat (chunk_size * w)) (concat (map audio chunks)))
                \<and> width c = w
                \<and> chunk_sample_cnt c = Inr chunk_size
         else fst (calls EvenChunkIterator_anext m
                     (EvenChunkIterator_init (AudioBlock_init chunks) chunk_size)) ! i
              = Inl StopAsyncIteration"
proof -
  let ?it = "EvenChunkIterator_init (AudioBlock_init chunks) chunk_size"
  let ?n = "nat (chunk_size * w)"
  let ?A = "concat (map audio chunks)"
  have wf: "ec_wf w ?it"
    using assms(3) init_wf [of w chunks chunk_size] by (simp add: wf_chunk_def [abs_def])
  have cs: "ec_chunk_size ?it = chunk_size" by (simp add: EvenChunkIterator_init_def)
  note ec = even_calls [OF assms(2,1) wf cs assms(4), unfolded init_pend]
  show ?thesis
  proof (cases "i < length ?A div ?n")
    case False
    with ec show ?thesis by simp
  next
    case True
    with ec obtain c where c: "fst (calls EvenChunkIterator_anext m ?it) ! i = Inr c"
      "audio c = take ?n (drop (i * ?n) ?A)" "width c = w" by auto
    have npos: "0 < ?n" using assms(1,2) by simp
    have "Suc i \<le> length ?A div ?n" using True by simp
    then have "Suc i * ?n \<le> (length ?A div ?n) * ?n" by (rule mult_le_mono1)
    also have "\<dots> \<le> length ?A" by simp
    finally have "i * ?n + ?n \<le> length ?A" by simp
    then have "length (audio c) = ?n" using c(2) by simp
    then have "int (length (audio c)) = chunk_size * w" using assms(1,2) by simp
    then have "chunk_sample_cnt c = Inr chunk_size"
      using chunk_sample_cnt_pos [of c] c(3) assms(2) by simp
    with c True show ?thesis by simp
  qed
qed


theorem even_chunks_drop_remainder_witness:
  "(\<exists>c. fst (calls EvenChunkIterator_anext 3
               (EvenChunkIterator_init
                  (AudioBlock_init
                     [\<lparr>start_time = 1, audio = [1, 2, 3, 4, 5, 6], width = 2, freq = 8000\<rparr>,
                      \<lparr>start_time = 2, audio = [7, 8, 9, 10, 11, 12], width = 2, freq = 8000\<rparr>,
                      \<lparr>start_time = 3, audio = [13, 14, 15, 16, 17, 18], width = 2, freq = 8000\<rparr>])
                  4)) ! 1 = Inr c
        \<and> audio c = [9, 10, 11, 12, 13, 14, 15, 16] \<and> chunk_sample_cnt c = Inr 4)
   \<and> fst (calls EvenChunkIterator_anext 3
               (EvenChunkIterator_init
                  (AudioBlock_init
                     [\<lparr>start_time = 1, audio = [1, 2, 3, 4, 5, 6], width = 2, freq = 8000\<rparr>,
                      \<lparr>start_time = 2, audio = [7, 8, 9, 10, 11, 12], width = 2, freq = 8000\<rparr>,
                      \<lparr>start_time = 3, audio = [13, 14, 15, 16, 17, 18], width = 2, freq = 8000\<rparr>])
                  4)) ! 2 = Inl StopAsyncIteration"
proof -
  let ?cs = "[\<lparr>start_time = 1, audio = [1, 2, 3, 4, 5, 6 :: byte], width = 2, freq = 8000\<rparr>,
              \<lparr>start_time = 2, audio = [7, 8, 9, 10, 11, 12], width = 2, freq = 8000\<rparr>,
              \<lparr>start_time = 3, audio = [13, 14, 15, 16, 17, 18], width = 2, freq = 8000\<rparr>]"
  have s: "(0::int) < 4" and w: "(0::int) < 2" by simp_all
  have wf: "list_all (\<lambda>c. width c = 2 \<and> int (length (audio c)) mod 2 = 0) ?cs" by simp
  have i1: "(1::nat) < 3" and i2: "(2::nat) < 3" by simp_all
  have n: "nat (4 * 2) = 8" by simp
  have a: "concat (map audio ?cs) = [1, 2, 3, 4, 5, 6, 7, 8, 9, 10, 11, 12, 13, 14, 15, 16, 17, 18]"
    by simp
  show ?thesis
    using even_chunks_drop_remainder [OF s w wf i1] even_chunks_drop_remainder [OF s w wf i2]
    unfolding n a by auto
qed

section \<open>The first item of a squelched block\<close>

lemma next_block_scan_triggered:
  "next_block_scan rms level mi = (Inr blk, mi') \<Longrightarrow>
     blk = SquelchedBlock_init mi' level
     \<and> check_squelch rms level False (memory mi') = Inr True"
proof (induction rms level mi rule: next_block_scan.induct)
  case (1 rms level mi)
  obtain r mi1 where st: "RememberingIterator_anext EvenChunkIterator_anext mi = (r, mi1)"
    by (cases "RememberingIterator_anext EvenChunkIterator_anext mi")
  show ?case
  proof (cases r)
    case (Inl e)
    with "1.prems" st show ?thesis by (simp add: next_block_scan.simps)
  next
    case (Inr chunk)
    show ?thesis
    proof (cases "check_squelch rms level False (memory mi1)")
      case (Inl e)
      with "1.prems" st Inr show ?thesis by (simp add: next_block_scan.simps)
    next
      case trig: (Inr triggered)
      show ?thesis
      proof (cases triggered)
        case True
        with "1.prems" st Inr trig show ?thesis by (auto simp: next_block_scan.simps)
      next
        case False
        have "next_block_scan rms level mi1 = (Inr blk, mi')"
          using "1.prems" st Inr trig False by (simp add: next_block_scan.simps)
        from "1.IH" [OF st [symmetric] Inr trig False this] show ?thesis .
      qed
    qed
  qed
qed

lemma check_squelch_nonempty:
  assumes "check_squelch rms level t chunks = Inr b"
  shows "chunks \<noteq> []"
proof
  assume "chunks = []"
  with assms show False by (simp add: check_squelch_def median_rms_Nil)
qed

lemma mem_iter_anext_window:
  assumes "RememberingIterator_anext nxt mi = (r, mi')" and "window_ok n mi"
  shows "window_ok n mi'"
proof -
  have l: "length (ri_buff mi) \<le> memory_size mi" and n: "memory_size mi = n"
    using assms(2) by (simp_all add: window_ok_def)
  obtain x it' where st: "nxt (ri_iterator mi) = (x, it')" by (cases "nxt (ri_iterator mi)")
  show ?thesis
  proof (cases x)
    case (Inl e)
    with assms st show ?thesis
      by (auto simp: RememberingIterator_anext_def window_ok_def)
  next
    case (Inr c)
    with assms(1) st have "ri_buff mi' = deque_append (memory_size mi) (ri_buff mi) c"
      and "memory_size mi' = memory_size mi"
      by (auto simp: RememberingIterator_anext_def)
    with deque_append_length [OF l, of c] n show ?thesis by (simp add: window_ok_def)
  qed
qed

lemma next_block_scan_window:
  "next_block_scan rms level mi = (r, mi') \<Longrightarrow> window_ok n mi \<Longrightarrow> window_ok n mi'"
proof (induction rms level mi rule: next_block_scan.induct)
  case (1 rms level mi)
  obtain x mi1 where st: "RememberingIterator_anext EvenChunkIterator_anext mi = (x, mi1)"
    by (cases "RememberingIterator_anext EvenChunkIterator_anext mi")
  have w1: "window_ok n mi1" using mem_iter_anext_window [OF st "1.prems"(2)] .
  show ?case
  proof (cases x)
    case (Inl e)
    with "1.prems"(1) st w1 show ?thesis by (simp add: next_block_scan.simps)
  next
    case (Inr chunk)
    show ?thesis
    proof (cases "check_squelch rms level False (memory mi1)")
      case (Inl e)
      with "1.prems"(1) st Inr w1 show ?thesis by (simp add: next_block_scan.simps)
    next
      case trig: (Inr triggered)
      show ?thesis
      proof (cases triggered)
        case True
        with "1.prems"(1) st Inr trig w1 show ?thesis by (auto simp: next_block_scan.simps)
      next
        case False
        have "next_block_scan rms level mi1 = (r, mi')"
          using "1.prems"(1) st Inr trig False by (simp add: next_block_scan.simps)
        from "1.IH" [OF st [symmetric] Inr trig False this w1] show ?thesis .
      qed
    qed
  qed
qed

lemma next_block_prepare_window:
  assumes "next_block_prepare s = (Inr mi, s1)" and "ss_inv s"
  shows "window_ok (prefix_samples s) mi"
  using assms
  by (auto simp: next_block_prepare_def ss_inv_def window_ok_def Let_def
      RememberingIterator_init_def split: option.splits if_splits prod.splits sum.splits)

lemma next_block_prepare_fields:
  assumes "next_block_prepare s = (r, s1)"
  shows "squelch_level s1 = squelch_level s \<and> prefix_samples s1 = prefix_samples s"
  using assms
  by (auto simp: next_block_prepare_def Let_def
      split: option.splits if_splits prod.splits sum.splits)

lemma loud_start_next_block:
  "SquelchedSource_next_block rms_one_sample loud_start
   = (Inr (SquelchedBlock_init
             \<lparr>ri_iterator = \<lparr>ec_iterator = \<lparr>stopped = False, sub = [one_sample_chunk 10]\<rparr>,
                             ec_chunk_size = 1, ec_cur_chunk = None\<rparr>,
              memory_size = 4, ri_buff = [one_sample_chunk 120]\<rparr>
             (Some 100)),
      \<lparr>ss_running = False, ss_source = \<lparr>running = False, blocks = []\<rparr>, sample_size = 1,
       squelch_level = Some 100, prefix_samples = 4, sample_width = 2,
       ss_mem_iter = Some
         \<lparr>ri_iterator = \<lparr>ec_iterator = \<lparr>stopped = False, sub = [one_sample_chunk 10]\<rparr>,
                         ec_chunk_size = 1, ec_cur_chunk = None\<rparr>,
          memory_size = 4, ri_buff = [one_sample_chunk 120]\<rparr>\<rparr>)"
  by code_simp


text \<open>
  The window need not be full at the trigger. From \<open>loud_start\<close>, whose window has room
  for 4 chunks, the first resegmented chunk already triggers the squelch: the window
  holds that one chunk, and the first item of the block returned is that chunk alone.
\<close>

theorem preroll_window_not_full_counterexample:
  "prefix_samples loud_start = 4
   \<and> map_sum id (length \<circ> memory \<circ> sb_source \<circ> sub)
         (fst (SquelchedSource_next_block rms_one_sample loud_start)) = Inr 1
   \<and> map_sum id (fst \<circ> AudioBlock_anext (SquelchedBlock_next_chunk rms_one_sample))
         (fst (SquelchedSource_next_block rms_one_sample loud_start))
       = Inr (Inr (one_sample_chunk 120))"
  unfolding loud_start_next_block
  by (simp add: loud_start_def SquelchedSource_init_def SquelchedBlock_init_def
      AudioBlock_init_def memory_def AudioBlock_anext_def SquelchedBlock_next_chunk_def
      merge_chunks_def one_sample_chunk_def)

text \<open>
  C6, as the code has it. When \<open>_next_block\<close> returns a block, the squelch has triggered
  on the memory of the source's remembering iterator, which is not empty; the first
  \<open>__anext__\<close> of the block returns the merge of that memory and only sets \<open>sent_mem\<close>:
  the remembering iterator, shared with the source, is as \<open>_next_block\<close> left it, so no
  chunk has been taken from the stream before the first item. For a source in order, the
  memory holds at most \<open>prefix_samples\<close> chunks (C7 says which), and the source stays
  in order.
\<close>

theorem squelched_block_first_item:
  assumes "SquelchedSource_next_block rms s = (Inr blk, s')"
  shows "\<exists>m. merge_chunks (memory (sb_source (sub blk))) = Inr m
           \<and> AudioBlock_anext (SquelchedBlock_next_chunk rms) blk
               = (Inr m, blk\<lparr>sub := (sub blk)\<lparr>sent_mem := True\<rparr>\<rparr>)
           \<and> memory (sb_source (sub blk)) \<noteq> []
           \<and> check_squelch rms (squelch_level s) False (memory (sb_source (sub blk))) = Inr True
           \<and> ss_mem_iter s' = Some (sb_source (sub blk))
           \<and> (ss_inv s \<longrightarrow> length (memory (sb_source (sub blk))) \<le> prefix_samples s \<and> ss_inv s')"
proof -
  obtain r s1 where p: "next_block_prepare s = (r, s1)" by (cases "next_block_prepare s")
  note fld = next_block_prepare_fields [OF p]
  from assms p obtain mi where r: "r = Inr mi"
    by (cases r) (simp_all add: SquelchedSource_next_block_def)
  obtain r2 mi' where sc: "next_block_scan rms (squelch_level s1) mi = (r2, mi')"
    by (cases "next_block_scan rms (squelch_level s1) mi")
  from assms p r sc have r2: "r2 = Inr blk" and s': "s' = s1\<lparr>ss_mem_iter := Some mi'\<rparr>"
    by (simp_all add: SquelchedSource_next_block_def)
  from next_block_scan_triggered [OF sc [unfolded r2]]
  have blk: "blk = SquelchedBlock_init mi' (squelch_level s1)"
    and trig: "check_squelch rms (squelch_level s1) False (memory mi') = Inr True" by simp_all
  have src: "sb_source (sub blk) = mi'"
    using blk by (simp add: SquelchedBlock_init_def AudioBlock_init_def)
  have ne: "memory mi' \<noteq> []" using check_squelch_nonempty [OF trig] .
  then obtain m where m: "merge_chunks (memory mi') = Inr m"
    by (cases "memory mi'") (simp_all add: merge_chunks_def)
  have step: "AudioBlock_anext (SquelchedBlock_next_chunk rms) blk
               = (Inr m, blk\<lparr>sub := (sub blk)\<lparr>sent_mem := True\<rparr>\<rparr>)"
    using m blk
    by (simp add: AudioBlock_anext_def SquelchedBlock_next_chunk_def SquelchedBlock_init_def
        AudioBlock_init_def)
  have win: "length (memory mi') \<le> prefix_samples s \<and> ss_inv s'" if inv: "ss_inv s"
  proof -
    have "window_ok (prefix_samples s) mi"
      using next_block_prepare_window [OF p [unfolded r] inv] .
    from next_block_scan_window [OF sc this]
    have "window_ok (prefix_samples s) mi'" .
    then show ?thesis using s' fld by (simp add: window_ok_def ss_inv_def memory_def)
  qed
  show ?thesis using m step ne trig src s' fld win by simp
qed

theorem squelched_block_first_item_witness:
  "fst (AudioBlock_anext (SquelchedBlock_next_chunk rms_one_sample)
          (SquelchedBlock_init
             \<lparr>ri_iterator = \<lparr>ec_iterator = \<lparr>stopped = False, sub = [one_sample_chunk 10]\<rparr>,
                             ec_chunk_size = 1, ec_cur_chunk = None\<rparr>,
              memory_size = 4, ri_buff = [one_sample_chunk 120]\<rparr>
             (Some 100)))
     = merge_chunks [one_sample_chunk 120]
   \<and> check_squelch rms_one_sample (Some 100) False [one_sample_chunk 120] = Inr True"
proof -
  let ?mi = "\<lparr>ri_iterator = \<lparr>ec_iterator = \<lparr>stopped = False, sub = [one_sample_chunk 10]\<rparr>,
                             ec_chunk_size = 1, ec_cur_chunk = None\<rparr>,
              memory_size = 4, ri_buff = [one_sample_chunk 120]\<rparr>"
  have src: "sb_source (sub (SquelchedBlock_init ?mi (Some 100))) = ?mi"
    by (simp add: SquelchedBlock_init_def AudioBlock_init_def)
  have mem: "memory ?mi = [one_sample_chunk 120]" by (simp add: memory_def)
  have lvl: "squelch_level loud_start = Some 100"
    by (simp add: loud_start_def SquelchedSource_init_def)
  from squelched_block_first_item [OF loud_start_next_block]
  obtain m where "merge_chunks (memory ?mi) = Inr m"
    and "AudioBlock_anext (SquelchedBlock_next_chunk rms_one_sample)
           (SquelchedBlock_init ?mi (Some 100))
         = (Inr m, (SquelchedBlock_init ?mi (Some 100))
                     \<lparr>sub := (sub (SquelchedBlock_init ?mi (Some 100)))\<lparr>sent_mem := True\<rparr>\<rparr>)"
    and "check_squelch rms_one_sample (Some 100) False (memory ?mi) = Inr True"
    unfolding src lvl by blast
  then show ?thesis unfolding mem by simp
qed

end
